theory Spec2Isabelle
  imports Main
begin

section \<open>Strings, characters and the built-ins the program calls\<close>

text \<open>
  A Python \<open>str\<close> is a sequence of code points. The embedding covers the code points
  U+0000 .. U+00FF (one \<open>char\<close> each, read as its code) and U+2026, the horizontal
  ellipsis with which \<open>interpret\<close> starts every tag it writes into the token list
  (the source spells the tags as string literals beginning with that character).
  Input text may contain any of these code points, the ellipsis included.
\<close>

datatype pychar = L1 char | Ellipsis

type_synonym str = "pychar list"

definition S :: "string \<Rightarrow> str" where
  "S cs = map L1 cs"

datatype error = IndexError | ValueError

definition bind_e :: "error + 'a \<Rightarrow> ('a \<Rightarrow> error + 'b) \<Rightarrow> error + 'b" where
  "bind_e r f = (case r of Inl e \<Rightarrow> Inl e | Inr v \<Rightarrow> f v)"

text \<open>Python's short-circuit \<open>and\<close> over tests that may raise.\<close>

definition and_e :: "error + bool \<Rightarrow> error + bool \<Rightarrow> error + bool" where
  "and_e a b = bind_e a (\<lambda>p. if p then b else Inr False)"

text \<open>
  \<open>str.isdigit\<close> and \<open>str.isdecimal\<close> on one code point. Among the code points covered,
  the decimal characters are \<open>0\<close> .. \<open>9\<close>; \<open>isdigit\<close> also accepts the superscript
  digits U+00B2, U+00B3 and U+00B9, which are digits but not decimal characters.
\<close>

definition digits :: "(char \<times> nat) list" where
  "digits = [(CHR ''0'', 0), (CHR ''1'', 1), (CHR ''2'', 2), (CHR ''3'', 3), (CHR ''4'', 4),
             (CHR ''5'', 5), (CHR ''6'', 6), (CHR ''7'', 7), (CHR ''8'', 8), (CHR ''9'', 9)]"

fun digit_value :: "pychar \<Rightarrow> nat option" where
  "digit_value (L1 c) = map_of digits c"
| "digit_value Ellipsis = None"

definition isdecimal :: "pychar \<Rightarrow> bool" where
  "isdecimal c = (digit_value c \<noteq> None)"

definition superscripts :: "pychar list" where
  "superscripts = [L1 (CHR 0xB2), L1 (CHR 0xB3), L1 (CHR 0xB9)]"

definition isdigit :: "pychar \<Rightarrow> bool" where
  "isdigit c = (isdecimal c \<or> c \<in> set superscripts)"

text \<open>\<open>x.isdigit()\<close> on a string: every character is a digit and there is at least one.\<close>

definition str_isdigit :: "str \<Rightarrow> bool" where
  "str_isdigit x = (x \<noteq> [] \<and> list_all isdigit x)"

text \<open>
  \<open>int(x)\<close>. The program applies it to integers, to strings that passed
  \<open>x.isdigit()\<close>, to slices of such strings and to the digits of a month tag, so the
  signs, blanks and underscores that \<open>int\<close> also reads never occur: the string is
  read as a decimal numeral when it is non-empty, all its characters are decimal and
  there are at most \<open>MAX_STR_DIGITS\<close> of them, and \<open>int\<close> raises ValueError otherwise.
  \<open>MAX_STR_DIGITS\<close> is the interpreter's default limit on the number of digits of a
  string that \<open>int\<close> converts (4300; leading zeros count).
\<close>

datatype pyval = PyInt nat | PyStr str

definition decimal :: "str \<Rightarrow> nat" where
  "decimal x = foldl (\<lambda>a c. 10 * a + (case digit_value c of Some d \<Rightarrow> d | None \<Rightarrow> 0)) 0 x"

definition MAX_STR_DIGITS :: nat where
  "MAX_STR_DIGITS = 4300"

fun py_int :: "pyval \<Rightarrow> error + nat" where
  "py_int (PyInt v) = Inr v"
| "py_int (PyStr x) =
     (if x \<noteq> [] \<and> list_all isdecimal x \<and> length x \<le> MAX_STR_DIGITS then Inr (decimal x)
      else Inl ValueError)"

text \<open>List operations that raise IndexError out of range.\<close>

definition getitem :: "'a list \<Rightarrow> nat \<Rightarrow> error + 'a" where
  "getitem xs n = (if n < length xs then Inr (xs ! n) else Inl IndexError)"

definition getlast :: "'a list \<Rightarrow> error + 'a" where
  "getlast xs = (if xs = [] then Inl IndexError else Inr (last xs))"

definition setitem :: "'a list \<Rightarrow> nat \<Rightarrow> 'a \<Rightarrow> error + 'a list" where
  "setitem xs n v = (if n < length xs then Inr (xs[n := v]) else Inl IndexError)"

definition pop :: "'a list \<Rightarrow> nat \<Rightarrow> error + ('a \<times> 'a list)" where
  "pop xs n = (if n < length xs then Inr (xs ! n, take n xs @ drop (Suc n) xs) else Inl IndexError)"

text \<open>\<open>list.insert\<close> never raises: an index past the end appends.\<close>

definition insert_at :: "'a list \<Rightarrow> nat \<Rightarrow> 'a \<Rightarrow> 'a list" where
  "insert_at xs n v = take n xs @ v # drop n xs"

text \<open>
  The formats \<open>%04d\<close> and \<open>%02d\<close> on a non-negative integer: its decimal numeral,
  padded with zeros on the left to the width.
\<close>

definition digit_char :: "nat \<Rightarrow> pychar" where
  "digit_char d = L1 (''0123456789'' ! d)"

fun numeral_of :: "nat \<Rightarrow> str" where
  "numeral_of n = (if n < 10 then [digit_char n] else numeral_of (n div 10) @ [digit_char (n mod 10)])"

declare numeral_of.simps [simp del]

definition fmt_d :: "nat \<Rightarrow> nat \<Rightarrow> str" where
  "fmt_d w n = replicate (w - length (numeral_of n)) (L1 (CHR ''0'')) @ numeral_of n"

definition fmt_y :: "nat \<Rightarrow> str" where
  "fmt_y y = fmt_d 4 y"

definition fmt_ym :: "nat \<Rightarrow> nat \<Rightarrow> str" where
  "fmt_ym y m = fmt_d 4 y @ S ''-'' @ fmt_d 2 m"

definition fmt_ymd :: "nat \<Rightarrow> nat \<Rightarrow> nat \<Rightarrow> str" where
  "fmt_ymd y m d = fmt_d 4 y @ S ''-'' @ fmt_d 2 m @ S ''-'' @ fmt_d 2 d"

section \<open>Constants and bound checks\<close>

text \<open>
  \<open>YEAR_HIGH\<close> is the calendar year read from the clock when the module is loaded; it
  is the parameter \<open>yh\<close> of every function that depends on it.
\<close>

definition YEAR_LOW :: nat where
  "YEAR_LOW = 1900"

definition Y2K_LOW :: nat where
  "Y2K_LOW = 32"

definition Y2K_HIGH :: nat where
  "Y2K_HIGH = 99"

definition is_year :: "nat \<Rightarrow> pyval \<Rightarrow> error + bool" where
  "is_year yh x = bind_e (py_int x) (\<lambda>v. Inr (YEAR_LOW \<le> v \<and> v \<le> yh))"

definition is_y2k :: "pyval \<Rightarrow> error + bool" where
  "is_y2k x = bind_e (py_int x) (\<lambda>v. Inr (Y2K_LOW \<le> v \<and> v \<le> Y2K_HIGH))"

definition is_month :: "pyval \<Rightarrow> error + bool" where
  "is_month x = bind_e (py_int x) (\<lambda>v. Inr (1 \<le> v \<and> v \<le> 12))"

definition is_day :: "pyval \<Rightarrow> error + bool" where
  "is_day x = bind_e (py_int x) (\<lambda>v. Inr (1 \<le> v \<and> v \<le> 31))"

section \<open>The tokenizer\<close>

text \<open>
  Lines 110-116: the list \<open>l\<close> starts with the first character of the input (an
  IndexError on the empty string); every further character either opens a new run,
  when it and the last character of the last run differ in \<open>isdigit\<close>, or is appended
  to the last run.
\<close>

definition tok_step :: "str list \<Rightarrow> pychar \<Rightarrow> error + str list" where
  "tok_step l i =
     bind_e (getlast l) (\<lambda>t. bind_e (getlast t) (\<lambda>c.
       if isdigit i \<noteq> isdigit c then Inr (l @ [[i]]) else Inr (butlast l @ [t @ [i]])))"

fun tok_loop :: "str list \<Rightarrow> str \<Rightarrow> error + str list" where
  "tok_loop l [] = Inr l"
| "tok_loop l (i # rest) =
     (case tok_step l i of Inl e \<Rightarrow> Inl e | Inr l' \<Rightarrow> tok_loop l' rest)"

definition tokenize :: "str \<Rightarrow> error + str list" where
  "tokenize instr = bind_e (getitem instr 0) (\<lambda>c. tok_loop [[c]] (drop 1 instr))"

section \<open>The numeric classifier\<close>

text \<open>
  The variables of \<open>interpret\<close>; the field \<open>toks\<close> is the token list \<open>l\<close>.
  \<open>month\<close> holds an integer when a numeric rule sets it and a string (the digits of
  the month tag) when the month-name matcher does.
\<close>

record pstate =
  year :: "nat option"
  month :: "pyval option"
  day :: "nat option"
  nbrs :: "nat list"
  toks :: "str list"

datatype flow = Continue pstate | Break pstate

definition tag :: "string \<Rightarrow> str" where
  "tag cs = Ellipsis # S cs"

text \<open>The slice \<open>x[a:b]\<close> for \<open>a \<le> b\<close>.\<close>

definition slice :: "nat \<Rightarrow> nat \<Rightarrow> 'a list \<Rightarrow> 'a list" where
  "slice a b x = take (b - a) (drop a x)"

text \<open>The tests of lines 124, 130, 136, 142, 148 and 154.\<close>

definition cond_ymd8 :: "nat \<Rightarrow> str \<Rightarrow> error + bool" where
  "cond_ymd8 yh x =
     and_e (Inr (length x = 8)) (and_e (is_year yh (PyStr (take 4 x)))
       (and_e (is_month (PyStr (slice 4 6 x))) (is_day (PyStr (drop 6 x)))))"

definition cond_dmy8 :: "nat \<Rightarrow> str \<Rightarrow> error + bool" where
  "cond_dmy8 yh x =
     and_e (Inr (length x = 8)) (and_e (is_day (PyStr (take 2 x)))
       (and_e (is_month (PyStr (slice 2 4 x))) (is_year yh (PyStr (drop 4 x)))))"

definition cond_ym6 :: "nat \<Rightarrow> str \<Rightarrow> error + bool" where
  "cond_ym6 yh x =
     and_e (Inr (length x = 6)) (and_e (is_year yh (PyStr (take 4 x)))
       (is_month (PyStr (drop 4 x))))"

definition cond_ymd6 :: "str \<Rightarrow> error + bool" where
  "cond_ymd6 x =
     and_e (Inr (length x = 6)) (and_e (is_y2k (PyStr (take 2 x)))
       (and_e (is_month (PyStr (slice 2 4 x))) (is_day (PyStr (drop 4 x)))))"

definition cond_dmy6 :: "str \<Rightarrow> error + bool" where
  "cond_dmy6 x =
     and_e (Inr (length x = 6)) (and_e (is_day (PyStr (take 2 x)))
       (and_e (is_month (PyStr (slice 2 4 x))) (is_y2k (PyStr (drop 4 x)))))"

definition cond_ym4 :: "pstate \<Rightarrow> str \<Rightarrow> error + bool" where
  "cond_ym4 st x =
     and_e (Inr (year st = None)) (and_e (Inr (length x = 4))
       (and_e (is_y2k (PyStr (take 2 x))) (is_month (PyStr (drop 2 x)))))"

text \<open>Lines 160-171: the chain that tags a run as year, day or candidate number.\<close>

definition tag_run :: "nat \<Rightarrow> pstate \<Rightarrow> nat \<Rightarrow> str \<Rightarrow> nat \<Rightarrow> error + flow" where
  "tag_run yh st n x v =
     bind_e (and_e (Inr (year st = None)) (and_e (Inr (length x = 4)) (is_year yh (PyInt v))))
       (\<lambda>c7. if c7 then
          bind_e (setitem (toks st) n (tag ''y'' @ x))
            (\<lambda>l'. Inr (Continue (st\<lparr>toks := l', year := Some v\<rparr>)))
        else
     bind_e (and_e (Inr (year st = None)) (and_e (Inr (length x = 2)) (is_y2k (PyInt v))))
       (\<lambda>c8. if c8 then
          bind_e (setitem (toks st) n (tag ''y19'' @ x))
            (\<lambda>l'. Inr (Continue (st\<lparr>toks := l', year := Some (1900 + v)\<rparr>)))
        else
     bind_e (and_e (Inr (day st = None)) (and_e (Inr (length x = 2))
               (and_e (Inr (v > 12)) (is_day (PyInt v)))))
       (\<lambda>c9. if c9 then
          bind_e (setitem (toks st) n (tag ''d'' @ x))
            (\<lambda>l'. Inr (Continue (st\<lparr>toks := l', day := Some v\<rparr>)))
        else if length x \<le> 2 \<and> v \<noteq> 0 then
          bind_e (setitem (toks st) n (tag ''n'' @ x))
            (\<lambda>l'. Inr (Continue (st\<lparr>toks := l', nbrs := nbrs st @ [v]\<rparr>)))
        else Inr (Continue st))))"

text \<open>Lines 120-171: the body of the loop for the token \<open>x\<close> at index \<open>n\<close>.\<close>

definition classify_run :: "nat \<Rightarrow> pstate \<Rightarrow> nat \<Rightarrow> str \<Rightarrow> error + flow" where
  "classify_run yh st n x =
     (if \<not> str_isdigit x then Inr (Continue st) else
      bind_e (py_int (PyStr x)) (\<lambda>v.
      bind_e (cond_ymd8 yh x) (\<lambda>c1. if c1 then
        bind_e (py_int (PyStr (take 4 x))) (\<lambda>y.
        bind_e (py_int (PyStr (slice 4 6 x))) (\<lambda>m.
        bind_e (py_int (PyStr (drop 6 x))) (\<lambda>d.
          Inr (Break (st\<lparr>year := Some y, month := Some (PyInt m), day := Some d\<rparr>)))))
      else
      bind_e (cond_dmy8 yh x) (\<lambda>c2. if c2 then
        bind_e (py_int (PyStr (drop 4 x))) (\<lambda>y.
        bind_e (py_int (PyStr (slice 2 4 x))) (\<lambda>m.
        bind_e (py_int (PyStr (take 2 x))) (\<lambda>d.
          Inr (Break (st\<lparr>year := Some y, month := Some (PyInt m), day := Some d\<rparr>)))))
      else
      bind_e (cond_ym6 yh x) (\<lambda>c3. if c3 then
        bind_e (py_int (PyStr (take 4 x))) (\<lambda>y.
        bind_e (py_int (PyStr (slice 4 6 x))) (\<lambda>m.
          Inr (Break (st\<lparr>year := Some y, month := Some (PyInt m), day := None\<rparr>))))
      else
      bind_e (cond_ymd6 x) (\<lambda>c4. if c4 then
        bind_e (py_int (PyStr (take 2 x))) (\<lambda>y.
        bind_e (py_int (PyStr (slice 2 4 x))) (\<lambda>m.
        bind_e (py_int (PyStr (drop 4 x))) (\<lambda>d.
          Inr (Break (st\<lparr>year := Some (y + 1900), month := Some (PyInt m), day := Some d\<rparr>)))))
      else
      bind_e (cond_dmy6 x) (\<lambda>c5. if c5 then
        bind_e (py_int (PyStr (drop 4 x))) (\<lambda>y.
        bind_e (py_int (PyStr (slice 2 4 x))) (\<lambda>m.
        bind_e (py_int (PyStr (take 2 x))) (\<lambda>d.
          Inr (Break (st\<lparr>year := Some (y + 1900), month := Some (PyInt m), day := Some d\<rparr>)))))
      else
      bind_e (cond_ym4 st x) (\<lambda>c6. if c6 then
        bind_e (py_int (PyStr (take 2 x))) (\<lambda>y.
        bind_e (py_int (PyStr (drop 2 x))) (\<lambda>m.
          Inr (Break (st\<lparr>year := Some y, month := Some (PyInt m), day := None\<rparr>))))
      else tag_run yh st n x v))))))))"

text \<open>
  Line 119: the loop runs over a copy of the enumerated token list, taken before the
  first iteration; \<open>break\<close> leaves it with the state reached.
\<close>

fun classify :: "nat \<Rightarrow> pstate \<Rightarrow> (nat \<times> str) list \<Rightarrow> error + pstate" where
  "classify yh st [] = Inr st"
| "classify yh st ((n, x) # rest) =
     (case classify_run yh st n x of
        Inl e \<Rightarrow> Inl e
      | Inr (Break st') \<Rightarrow> Inr st'
      | Inr (Continue st') \<Rightarrow> classify yh st' rest)"

section \<open>The month-name matcher\<close>

text \<open>
  Every pattern of \<open>MONTHS\<close> is an alternation of literal words compiled with
  \<open>re.IGNORECASE\<close>. A pattern is the list of its words in the order written, in
  lower case. Among the code points covered, a character matches a lower-case letter
  of a pattern exactly when it is that letter or its upper-case form.
\<close>

definition lower :: "pychar \<Rightarrow> pychar" where
  "lower c =
     (case c of
        Ellipsis \<Rightarrow> Ellipsis
      | L1 a \<Rightarrow>
          (case map_of (zip ''ABCDEFGHIJKLMNOPQRSTUVWXYZ'' ''abcdefghijklmnopqrstuvwxyz'') a of
             Some b \<Rightarrow> L1 b
           | None \<Rightarrow> L1 a))"

text \<open>
  The word \<open>w\<close> (in lower case) stands at the start of the text \<open>s\<close>, which has been
  put in lower case.
\<close>

fun word_at :: "str \<Rightarrow> str \<Rightarrow> bool" where
  "word_at [] s = True"
| "word_at (p # ps) [] = False"
| "word_at (p # ps) (c # cs) = (if c = p then word_at ps cs else False)"

text \<open>
  A match of the alternation at the start of \<open>s\<close>: the first word, in the order
  written, that stands there; its length is the length of the match.
\<close>

fun match_here :: "str list \<Rightarrow> str \<Rightarrow> nat option" where
  "match_here [] s = None"
| "match_here (w # ws) s = (if word_at w s then Some (length w) else match_here ws s)"

text \<open>
  \<open>regex.search\<close>: the match at the leftmost position that has one, as the span
  (start, end); \<open>i\<close> is the position of \<open>s\<close> in the string searched.
\<close>

fun search_from :: "str list \<Rightarrow> nat \<Rightarrow> str \<Rightarrow> (nat \<times> nat) option" where
  "search_from ws i [] = (case match_here ws [] of Some k \<Rightarrow> Some (i, i + k) | None \<Rightarrow> None)"
| "search_from ws i (c # cs) =
     (case match_here ws (c # cs) of
        Some k \<Rightarrow> Some (i, i + k)
      | None \<Rightarrow> search_from ws (Suc i) cs)"

definition search :: "str list \<Rightarrow> str \<Rightarrow> (nat \<times> nat) option" where
  "search ws s = search_from ws 0 (map lower s)"

definition MONTHS :: "(str list \<times> str) list" where
  "MONTHS = [
     (map S [''january'', ''januar'', ''jan''], tag ''m1''),
     (map S [''february'', ''februar'', ''feb''], tag ''m2''),
     (map S [''march'', ''marts'', ''mar''], tag ''m3''),
     (map S [''april'', ''apr''], tag ''m4''),
     (map S [''maj'', ''may''], tag ''m5''),
     (map S [''june'', ''juni'', ''jun''], tag ''m6''),
     (map S [''july'', ''juli'', ''jul''], tag ''m7''),
     (map S [''august'', ''aug''], tag ''m8''),
     (map S [''september'', ''sept'', ''sep''], tag ''m9''),
     (map S [''october'', ''oct'', ''oktober'', ''okt''], tag ''m10''),
     (map S [''november'', ''nov''], tag ''m11''),
     (map S [''december'', ''dec''], tag ''m12'')]"

text \<open>The comparison of two spans, as Python compares tuples.\<close>

definition span_less :: "nat \<times> nat \<Rightarrow> nat \<times> nat \<Rightarrow> bool" where
  "span_less a b = (fst a < fst b \<or> (fst a = fst b \<and> snd a < snd b))"

text \<open>
  Lines 176-184: the loop over the catalogue for one token, with \<open>first_match\<close> and
  \<open>first_mon_id\<close> as one optional pair.
\<close>

fun first_month :: "(str list \<times> str) list \<Rightarrow> str \<Rightarrow> ((nat \<times> nat) \<times> str) option
    \<Rightarrow> ((nat \<times> nat) \<times> str) option" where
  "first_month [] tok fm = fm"
| "first_month ((regex, mon_id) # ms) tok fm =
     (case search regex tok of
        None \<Rightarrow> first_month ms tok fm
      | Some sp \<Rightarrow>
          (case fm of
             None \<Rightarrow> first_month ms tok (Some (sp, mon_id))
           | Some (fsp, fid) \<Rightarrow>
               if span_less sp fsp then first_month ms tok (Some (sp, mon_id))
               else first_month ms tok fm))"

text \<open>
  Lines 176-197: one iteration of the \<open>while\<close> loop at index \<open>n\<close>; it returns the new
  index, the new token list and the month it has set, if any.
\<close>

definition month_body :: "nat \<Rightarrow> str list \<Rightarrow> error + (nat \<times> str list \<times> pyval option)" where
  "month_body n l =
     bind_e (getitem l n) (\<lambda>tok.
       case first_month MONTHS tok None of
         None \<Rightarrow> Inr (n + 1, l, None)
       | Some (span, mon_id) \<Rightarrow>
           bind_e (pop l n) (\<lambda>(x, l1).
             let (l2, n2) = (if fst span > 0 then (insert_at l1 n (take (fst span) x), n + 1)
                             else (l1, n));
                 l3 = insert_at l2 n2 mon_id
             in bind_e (getitem l3 n2) (\<lambda>t.
                  let n3 = n2 + 1;
                      l4 = (if snd span < length x then insert_at l3 n3 (drop (snd span) x)
                            else l3)
                  in Inr (n3, l4, Some (PyStr (drop 2 t))))))"

function month_loop :: "nat \<Rightarrow> str list \<Rightarrow> pyval option \<Rightarrow> error + (str list \<times> pyval option)" where
  "month_loop n l mon =
     (if n < length l \<and> mon = None then
        (case month_body n l of
           Inl e \<Rightarrow> Inl e
         | Inr (n', l', mon') \<Rightarrow> month_loop n' l' mon')
      else Inr (l, mon))"
  by pat_completeness auto
termination
proof (relation "measure (\<lambda>(n, l, mon). if mon = None then Suc (length l - n) else 0)")
  show "wf (measure (\<lambda>(n, l, mon). if mon = None then Suc (length l - n) else 0))"
    by simp
next
  fix n :: nat and l :: "str list" and mon :: "pyval option"
    and n' :: nat and l' :: "str list" and mon' :: "pyval option"
    and r :: "nat \<times> str list \<times> pyval option" and r' :: "str list \<times> pyval option"
  assume c: "n < length l \<and> mon = None"
    and b: "month_body n l = Inr r" "(n', r') = r" "(l', mon') = r'"
  from b have "month_body n l = Inr (n', l', mon')"
    by simp
  then have "mon' \<noteq> None \<or> (n' = Suc n \<and> l' = l)"
    by (auto simp: month_body_def bind_e_def getitem_def pop_def Let_def
        split: option.splits if_splits prod.splits sum.splits)
  with c show "((n', l', mon'), (n, l, mon))
      \<in> measure (\<lambda>(n, l, mon). if mon = None then Suc (length l - n) else 0)"
    by auto
qed

declare month_loop.simps [simp del]

text \<open>
  The same loop with a bound on the number of times its condition is tested: \<open>None\<close>
  when the bound is reached before the loop has ended.
\<close>

fun month_loop_fuel :: "nat \<Rightarrow> nat \<Rightarrow> str list \<Rightarrow> pyval option
    \<Rightarrow> (error + (str list \<times> pyval option)) option" where
  "month_loop_fuel 0 n l mon = None"
| "month_loop_fuel (Suc k) n l mon =
     (if n < length l \<and> mon = None then
        (case month_body n l of
           Inl e \<Rightarrow> Some (Inl e)
         | Inr (n', l', mon') \<Rightarrow> month_loop_fuel k n' l' mon')
      else Some (Inr (l, mon)))"

section \<open>The disambiguator\<close>

text \<open>Lines 226-227 and 230-231: some separator of \<open>-.\<close> occurs exactly twice.\<close>

definition two_seps :: "str \<Rightarrow> bool" where
  "two_seps x = list_ex (\<lambda>sep. count_list x sep = 2) (S ''-.'')"

text \<open>
  Lines 223-232, entered when there are two candidate numbers. The result \<open>None\<close>
  stands for falling through to line 234.
\<close>

definition two_candidates :: "nat \<Rightarrow> nat list \<Rightarrow> str list \<Rightarrow> error + str option" where
  "two_candidates y ns l =
     (let x = concat l in
      bind_e (and_e (bind_e (getlast l) (\<lambda>t. Inr (take 2 t = tag ''y'')))
               (and_e (bind_e (getitem ns 0) (\<lambda>a. is_day (PyInt a)))
                      (bind_e (getitem ns 1) (\<lambda>b. is_month (PyInt b)))))
        (\<lambda>dmy. if dmy \<and> two_seps x then Inr (Some (fmt_ymd y (ns ! 1) (ns ! 0))) else
      bind_e (and_e (bind_e (getitem l 0) (\<lambda>t. Inr (take 2 t = tag ''y'')))
               (and_e (bind_e (getitem ns 1) (\<lambda>b. is_day (PyInt b)))
                      (bind_e (getitem ns 0) (\<lambda>a. is_month (PyInt a)))))
        (\<lambda>ymd. if ymd \<and> two_seps x then Inr (Some (fmt_ymd y (ns ! 0) (ns ! 1)))
               else Inr None)))"

text \<open>
  Lines 208-237, with \<open>year\<close>, \<open>month\<close> and \<open>day\<close> already converted. In the result,
  \<open>None\<close> is Python's \<open>None\<close>.
\<close>

definition disambiguate :: "nat \<Rightarrow> nat option \<Rightarrow> nat option \<Rightarrow> nat list \<Rightarrow> str list
    \<Rightarrow> error + str option" where
  "disambiguate y mon dy ns l =
     (if mon \<noteq> None \<and> dy \<noteq> None then Inr (Some (fmt_ymd y (the mon) (the dy))) else
      if mon \<noteq> None \<and> length ns = 0 then Inr (Some (fmt_ym y (the mon))) else
      bind_e (and_e (Inr (mon \<noteq> None)) (and_e (Inr (length ns = 1))
                (bind_e (getitem ns 0) (\<lambda>a. is_day (PyInt a)))))
        (\<lambda>c3. if c3 then Inr (Some (fmt_ymd y (the mon) (ns ! 0))) else
      bind_e (and_e (Inr (dy \<noteq> None)) (and_e (Inr (length ns = 1))
                (bind_e (getitem ns 0) (\<lambda>a. is_month (PyInt a)))))
        (\<lambda>c4. if c4 then Inr (Some (fmt_ymd y (ns ! 0) (the dy))) else
      bind_e (and_e (Inr (mon = None)) (and_e (Inr (dy = None)) (and_e (Inr (length ns = 1))
                (bind_e (getitem ns 0) (\<lambda>a. is_month (PyInt a))))))
        (\<lambda>c5. if c5 then Inr (Some (fmt_ym y (ns ! 0))) else
      bind_e (if length ns = 2 then two_candidates y ns l else Inr None)
        (\<lambda>r. case r of
               Some s \<Rightarrow> Inr (Some s)
             | None \<Rightarrow>
                 if mon \<noteq> None then Inr (Some (fmt_ym y (the mon)))
                 else Inr (Some (fmt_y y)))))))"

text \<open>Lines 199-206, then the disambiguator.\<close>

definition emit :: "pstate \<Rightarrow> error + str option" where
  "emit st =
     (case year st of
        None \<Rightarrow> Inr None
      | Some y0 \<Rightarrow>
          bind_e (py_int (PyInt y0)) (\<lambda>y.
          bind_e (case month st of None \<Rightarrow> Inr None
                  | Some m0 \<Rightarrow> bind_e (py_int m0) (\<lambda>m. Inr (Some m))) (\<lambda>mon.
          bind_e (case day st of None \<Rightarrow> Inr None
                  | Some d0 \<Rightarrow> bind_e (py_int (PyInt d0)) (\<lambda>d. Inr (Some d))) (\<lambda>dy.
            disambiguate y mon dy (nbrs st) (toks st)))))"

section \<open>The entry point\<close>

text \<open>
  Lines 105-197: the tokenizer, the classifier and the month-name matcher, up to the
  values of the variables when line 199 is reached.
\<close>

definition scan :: "nat \<Rightarrow> str \<Rightarrow> error + pstate" where
  "scan yh instr =
     bind_e (tokenize instr) (\<lambda>l0.
     bind_e (classify yh \<lparr>year = None, month = None, day = None, nbrs = [], toks = l0\<rparr>
               (enumerate 0 l0)) (\<lambda>st.
     bind_e (month_loop 0 (toks st) (month st)) (\<lambda>(l1, mon).
       Inr (st\<lparr>toks := l1, month := mon\<rparr>))))"

text \<open>
  The function \<open>interpret\<close> of the source, lines 100-237; its name is a keyword of
  the prover, hence the suffix.
\<close>

definition interpret_date :: "nat \<Rightarrow> str \<Rightarrow> error + str option" where
  "interpret_date yh instr = bind_e (scan yh instr) emit"

section \<open>Predicates of the statements\<close>

text \<open>
  A digit run on which one of the tests of lines 124, 130, 136, 142 and 148 succeeds:
  the five rules that assign the year without testing whether it is set.
\<close>

definition block_rule :: "nat \<Rightarrow> str \<Rightarrow> bool" where
  "block_rule yh x =
     (str_isdigit x \<and>
      (cond_ymd8 yh x = Inr True \<or> cond_dmy8 yh x = Inr True \<or> cond_ym6 yh x = Inr True
       \<or> cond_ymd6 x = Inr True \<or> cond_dmy6 x = Inr True))"

text \<open>
  The classes of the tokenizer are those of \<open>str.isdigit\<close>, the test of line 113,
  which accepts the superscript digits as well as the decimal digits. A run is
  isdigit-uniform when \<open>isdigit\<close> accepts all of its characters or none of them; a
  token list alternates when neighbouring tokens differ in \<open>x.isdigit()\<close>.
\<close>

definition isdigit_uniform :: "str \<Rightarrow> bool" where
  "isdigit_uniform t = (list_all isdigit t \<or> list_all (\<lambda>c. \<not> isdigit c) t)"

fun alternating :: "str list \<Rightarrow> bool" where
  "alternating (a # b # r) = (str_isdigit a \<noteq> str_isdigit b \<and> alternating (b # r))"
| "alternating r = True"

definition runs_ok :: "str list \<Rightarrow> bool" where
  "runs_ok l = (l \<noteq> [] \<and> list_all (\<lambda>t. t \<noteq> [] \<and> isdigit_uniform t) l \<and> alternating l)"

text \<open>
  The match of a catalogue entry in a token, compared with a start position or a span:
  the entry does not match, or its match starts after (not before) the position, is
  greater (not smaller) than the span.
\<close>

definition starts_after :: "nat \<Rightarrow> str \<Rightarrow> str list \<times> str \<Rightarrow> bool" where
  "starts_after a tok e = (case search (fst e) tok of None \<Rightarrow> True | Some sp \<Rightarrow> a < fst sp)"

definition starts_not_before :: "nat \<Rightarrow> str \<Rightarrow> str list \<times> str \<Rightarrow> bool" where
  "starts_not_before a tok e = (case search (fst e) tok of None \<Rightarrow> True | Some sp \<Rightarrow> a \<le> fst sp)"

definition span_after :: "nat \<times> nat \<Rightarrow> str \<Rightarrow> str list \<times> str \<Rightarrow> bool" where
  "span_after sp tok e = (case search (fst e) tok of None \<Rightarrow> True | Some sp' \<Rightarrow> span_less sp sp')"

definition span_not_before :: "nat \<times> nat \<Rightarrow> str \<Rightarrow> str list \<times> str \<Rightarrow> bool" where
  "span_not_before sp tok e =
     (case search (fst e) tok of None \<Rightarrow> True | Some sp' \<Rightarrow> \<not> span_less sp' sp)"

text \<open>
  The result of the catalogue loop: it is the initial pair, kept because no entry has
  a smaller span; or it is an entry of the list whose span is smaller than the initial
  one, smaller than the span of every entry before it and not greater than the span
  of any entry after it.
\<close>

definition kept :: "(str list \<times> str) list \<Rightarrow> str \<Rightarrow> ((nat \<times> nat) \<times> str) option
    \<Rightarrow> nat \<times> nat \<Rightarrow> str \<Rightarrow> bool" where
  "kept ms tok fm sp mid = (fm = Some (sp, mid) \<and> list_all (span_not_before sp tok) ms)"

definition won :: "(str list \<times> str) list \<Rightarrow> str \<Rightarrow> ((nat \<times> nat) \<times> str) option
    \<Rightarrow> nat \<times> nat \<Rightarrow> str \<Rightarrow> bool" where
  "won ms tok fm sp mid =
     (\<exists>pre ws post. ms = pre @ (ws, mid) # post \<and> search ws tok = Some sp
        \<and> (case fm of None \<Rightarrow> True | Some f \<Rightarrow> span_less sp (fst f))
        \<and> list_all (span_after sp tok) pre
        \<and> list_all (span_not_before sp tok) post)"

text \<open>
  The token list after the token at index \<open>k\<close> has been split at the span \<open>sp\<close>: the
  text before the match (if any), the month tag, the text after the match (if any).
\<close>

definition spliced :: "str list \<Rightarrow> nat \<Rightarrow> nat \<times> nat \<Rightarrow> str \<Rightarrow> str list" where
  "spliced l k sp mid =
     take k l @ (if 0 < fst sp then [take (fst sp) (l ! k)] else []) @ [mid]
       @ (if snd sp < length (l ! k) then [drop (snd sp) (l ! k)] else []) @ drop (Suc k) l"

section \<open>Basic facts\<close>

lemma bind_e_Inr [simp]: "bind_e (Inr v) f = f v"
  by (simp add: bind_e_def)

lemma bind_e_Inl [simp]: "bind_e (Inl e) f = Inl e"
  by (simp add: bind_e_def)

lemma and_e_True [simp]: "and_e (Inr True) b = b"
  by (simp add: and_e_def)

lemma and_e_False [simp]: "and_e (Inr False) b = Inr False"
  by (simp add: and_e_def)

lemma and_e_Inr_Inr [simp]: "and_e (Inr p) (Inr q) = Inr (p \<and> q)"
  by (simp add: and_e_def)

lemma isdecimal_isdigit: "isdecimal c \<Longrightarrow> isdigit c"
  by (simp add: isdigit_def)

lemma list_all_isdecimal_isdigit: "list_all isdecimal x \<Longrightarrow> list_all isdigit x"
  by (induction x) (simp_all add: isdecimal_isdigit)

lemma is_bounds_PyInt [simp]:
  "is_year yh (PyInt v) = Inr (1900 \<le> v \<and> v \<le> yh)"
  "is_y2k (PyInt v) = Inr (32 \<le> v \<and> v \<le> 99)"
  "is_month (PyInt v) = Inr (1 \<le> v \<and> v \<le> 12)"
  "is_day (PyInt v) = Inr (1 \<le> v \<and> v \<le> 31)"
  by (simp_all add: is_year_def is_y2k_def is_month_def is_day_def YEAR_LOW_def Y2K_LOW_def
      Y2K_HIGH_def)

lemma conds_length:
  "length x \<noteq> 8 \<Longrightarrow> cond_ymd8 yh x = Inr False"
  "length x \<noteq> 8 \<Longrightarrow> cond_dmy8 yh x = Inr False"
  "length x \<noteq> 6 \<Longrightarrow> cond_ym6 yh x = Inr False"
  "length x \<noteq> 6 \<Longrightarrow> cond_ymd6 x = Inr False"
  "length x \<noteq> 6 \<Longrightarrow> cond_dmy6 x = Inr False"
  "length x \<noteq> 4 \<Longrightarrow> cond_ym4 st x = Inr False"
  by (simp_all add: cond_ymd8_def cond_dmy8_def cond_ym6_def cond_ymd6_def cond_dmy6_def
      cond_ym4_def)

text \<open>A run of decimal digits that no rule of the classifier matches leaves the state as it is.\<close>

lemma classify_run_ignored:
  assumes "list_all isdecimal x"
    and "length x = 3 \<or> length x = 5 \<or> length x = 7
         \<or> (9 \<le> length x \<and> length x \<le> MAX_STR_DIGITS)
         \<or> (x \<noteq> [] \<and> length x \<le> 2 \<and> decimal x = 0)"
  shows "classify_run yh st n x = Inr (Continue st)"
proof -
  from assms(2) have ne: "x \<noteq> []" and short: "length x \<le> MAX_STR_DIGITS"
    by (auto simp: MAX_STR_DIGITS_def)
  with assms(1) have d: "str_isdigit x" and i: "py_int (PyStr x) = Inr (decimal x)"
    by (simp_all add: str_isdigit_def list_all_isdecimal_isdigit)
  from assms(2) have len: "length x \<noteq> 8" "length x \<noteq> 6" "length x \<noteq> 4"
    by auto
  from assms(2) have t: "tag_run yh st n x (decimal x) = Inr (Continue st)"
    by (auto simp: tag_run_def)
  show ?thesis
    unfolding classify_run_def using d i t by (simp add: conds_length len)
qed

text \<open>The month-name matcher finds nothing in a token of decimal digits.\<close>

lemma isdecimal_cases: "isdecimal c \<Longrightarrow> c \<in> set (S ''0123456789'')"
  by (cases c) (auto simp: isdecimal_def digits_def S_def split: if_splits)

lemma lower_decimal: "isdecimal c \<Longrightarrow> lower c = c"
  by (drule isdecimal_cases) (auto simp: S_def lower_def)

lemma map_lower_decimal: "list_all isdecimal s \<Longrightarrow> map lower s = s"
  by (induction s) (simp_all add: lower_decimal)

lemma word_at_decimal:
  "list_all isdecimal s \<Longrightarrow> w \<noteq> [] \<Longrightarrow> \<not> isdecimal (hd w) \<Longrightarrow> \<not> word_at w s"
  by (cases w; cases s) auto

lemma match_here_decimal:
  "list_all isdecimal s \<Longrightarrow> list_all (\<lambda>w. w \<noteq> [] \<and> \<not> isdecimal (hd w)) ws
    \<Longrightarrow> match_here ws s = None"
  by (induction ws) (simp_all add: word_at_decimal)

lemma search_from_decimal:
  "list_all isdecimal s \<Longrightarrow> list_all (\<lambda>w. w \<noteq> [] \<and> \<not> isdecimal (hd w)) ws
    \<Longrightarrow> search_from ws i s = None"
proof (induction s arbitrary: i)
  case Nil
  then show ?case by (simp add: match_here_decimal)
next
  case (Cons c cs)
  from Cons.prems have "match_here ws (c # cs) = None"
    by (rule match_here_decimal)
  with Cons show ?case by simp
qed

lemma first_month_none:
  "list_all (\<lambda>(regex, mon_id). search regex tok = None) ms \<Longrightarrow> first_month ms tok fm = fm"
  by (induction ms) auto

lemma MONTHS_letters:
  "list_all (\<lambda>(regex, mon_id). list_all (\<lambda>w. w \<noteq> [] \<and> \<not> isdecimal (hd w)) regex) MONTHS"
  by (simp add: MONTHS_def S_def isdecimal_def digits_def)

lemma first_month_decimal:
  assumes "list_all isdecimal x"
  shows "first_month MONTHS x None = None"
proof -
  have "list_all (\<lambda>(regex, mon_id). search regex x = None) ms"
    if "list_all (\<lambda>(regex, mon_id). list_all (\<lambda>w. w \<noteq> [] \<and> \<not> isdecimal (hd w)) regex) ms"
    for ms :: "(str list \<times> str) list"
    using that assms
    by (induction ms) (auto simp: search_def map_lower_decimal search_from_decimal)
  from this [OF MONTHS_letters] show ?thesis
    by (rule first_month_none)
qed

section \<open>The runs of the tokenizer\<close>

lemma alternating_snoc:
  "alternating (ls @ [t]) = (alternating ls \<and> (ls = [] \<or> str_isdigit (last ls) \<noteq> str_isdigit t))"
  by (induction ls rule: alternating.induct) auto

lemma list_all_last: "t \<noteq> [] \<Longrightarrow> list_all P t \<Longrightarrow> P (last t)"
  by (induction t) auto

lemma not_digits_and_others:
  "t \<noteq> [] \<Longrightarrow> list_all isdigit t \<Longrightarrow> \<not> list_all (\<lambda>c. \<not> isdigit c) t"
  by (cases t) auto

lemma isdigit_uniform_last:
  assumes "isdigit_uniform t" and "t \<noteq> []"
  shows "str_isdigit t = isdigit (last t)"
proof (cases "list_all isdigit t")
  case True
  with assms(2) show ?thesis
    by (simp add: str_isdigit_def list_all_last)
next
  case False
  with assms(1) have "list_all (\<lambda>c. \<not> isdigit c) t"
    by (simp add: isdigit_uniform_def)
  with assms(2) have "\<not> isdigit (last t)"
    by (rule list_all_last)
  with False show ?thesis
    by (simp add: str_isdigit_def)
qed

lemma isdigit_uniform_snoc:
  "isdigit_uniform t \<Longrightarrow> t \<noteq> [] \<Longrightarrow> isdigit i = isdigit (last t) \<Longrightarrow> isdigit_uniform (t @ [i])"
  using isdigit_uniform_last [of t] by (auto simp: isdigit_uniform_def str_isdigit_def)

lemma str_isdigit_snoc:
  "isdigit_uniform t \<Longrightarrow> t \<noteq> [] \<Longrightarrow> isdigit i = isdigit (last t) \<Longrightarrow> str_isdigit (t @ [i]) = str_isdigit t"
  using isdigit_uniform_last [of t] by (auto simp: str_isdigit_def)

lemma tok_step_runs:
  assumes "runs_ok l"
  shows "\<exists>l'. tok_step l i = Inr l' \<and> runs_ok l' \<and> concat l' = concat l @ [i]"
proof -
  from assms obtain ls t where l: "l = ls @ [t]"
    by (auto simp: runs_ok_def) (metis append_butlast_last_id)
  with assms have t: "t \<noteq> []" "isdigit_uniform t" and ls: "list_all (\<lambda>t. t \<noteq> [] \<and> isdigit_uniform t) ls"
    and alt: "alternating ls" "ls = [] \<or> str_isdigit (last ls) \<noteq> str_isdigit t"
    by (auto simp: runs_ok_def alternating_snoc)
  show ?thesis
  proof (cases "isdigit i \<noteq> isdigit (last t)")
    case True
    with t have d: "str_isdigit t \<noteq> str_isdigit [i]"
      by (simp add: isdigit_uniform_last) (simp add: str_isdigit_def)
    from l have lt: "last l = t"
      by simp
    from assms have al: "alternating l"
      by (simp add: runs_ok_def)
    from al lt d have "alternating (l @ [[i]])"
      using alternating_snoc [of l "[i]"] by blast
    moreover from assms have "l \<noteq> []" "list_all (\<lambda>t. t \<noteq> [] \<and> isdigit_uniform t) l"
      by (simp_all add: runs_ok_def)
    ultimately show ?thesis
      using True lt t by (simp add: tok_step_def getlast_def runs_ok_def isdigit_uniform_def)
  next
    case False
    then have same: "isdigit i = isdigit (last t)"
      by simp
    with t have "isdigit_uniform (t @ [i])" "str_isdigit (t @ [i]) = str_isdigit t"
      by (simp_all add: isdigit_uniform_snoc str_isdigit_snoc)
    with l t ls alt same show ?thesis
      by (simp add: tok_step_def getlast_def runs_ok_def alternating_snoc)
  qed
qed

lemma tok_loop_runs:
  "runs_ok l \<Longrightarrow> \<exists>l'. tok_loop l rest = Inr l' \<and> runs_ok l' \<and> concat l' = concat l @ rest"
proof (induction rest arbitrary: l)
  case Nil
  then show ?case by simp
next
  case (Cons i rest)
  from tok_step_runs [OF Cons.prems, of i] obtain l1
    where s: "tok_step l i = Inr l1" "runs_ok l1" "concat l1 = concat l @ [i]"
    by blast
  from Cons.IH [OF s(2)] s show ?case
    by auto
qed

lemma tokenize_runs:
  assumes "instr \<noteq> []"
  shows "\<exists>l. tokenize instr = Inr l \<and> runs_ok l \<and> concat l = instr"
proof -
  from assms obtain c cs where i: "instr = c # cs"
    by (cases instr) auto
  have "runs_ok [[c]]"
    by (simp add: runs_ok_def isdigit_uniform_def)
  from tok_loop_runs [OF this, of cs] i show ?thesis
    by (auto simp: tokenize_def getitem_def)
qed

section \<open>Termination of the month-name loop\<close>

lemma month_body_progress:
  assumes "month_body n l = Inr (n', l', mon')"
  shows "mon' \<noteq> None \<or> (n' = Suc n \<and> l' = l)"
  using assms
  by (auto simp: month_body_def bind_e_def getitem_def pop_def Let_def
      split: option.splits if_splits prod.splits sum.splits)

lemma month_loop_set: "month_loop n l (Some v) = Inr (l, Some v)"
  by (subst month_loop.simps) simp

lemma month_loop_end: "\<not> n < length l \<Longrightarrow> month_loop n l mon = Inr (l, mon)"
  by (subst month_loop.simps) simp

lemma month_loop_step:
  "n < length l \<Longrightarrow> month_loop n l None =
     (case month_body n l of Inl e \<Rightarrow> Inl e | Inr (n', l', mon') \<Rightarrow> month_loop n' l' mon')"
  by (subst month_loop.simps) simp

lemma month_loop_fuel_enough:
  "(if mon = None then Suc (length l - n) else 0) < k
    \<Longrightarrow> month_loop_fuel k n l mon = Some (month_loop n l mon)"
proof (induction k arbitrary: n l mon)
  case 0
  then show ?case by simp
next
  case (Suc k)
  show ?case
  proof (cases mon)
    case (Some v)
    then show ?thesis
      by (simp add: month_loop_set)
  next
    case None
    show ?thesis
    proof (cases "n < length l")
      case False
      with None show ?thesis
        by (simp add: month_loop_end)
    next
      case True
      show ?thesis
      proof (cases "month_body n l")
        case (Inl e)
        with True None show ?thesis
          by (simp add: month_loop_step)
      next
        case (Inr r)
        obtain n' l' mon' where r: "r = (n', l', mon')"
          by (cases r)
        from Inr r have "month_body n l = Inr (n', l', mon')"
          by simp
        then have "mon' \<noteq> None \<or> (n' = Suc n \<and> l' = l)"
          by (rule month_body_progress)
        with True None Suc.prems have "(if mon' = None then Suc (length l' - n') else 0) < k"
          by auto
        from Suc.IH [OF this] True None Inr r show ?thesis
          by (simp add: month_loop_step)
      qed
    qed
  qed
qed

section \<open>The choice of the month-name matcher\<close>

lemma span_less_trans: "span_less a b \<Longrightarrow> span_less b c \<Longrightarrow> span_less a c"
  by (auto simp: span_less_def)

lemma span_less_total: "span_less a b \<Longrightarrow> \<not> span_less c b \<Longrightarrow> span_less a c"
  by (cases a; cases b; cases c) (auto simp: span_less_def)

lemma span_less_not_sym: "span_less a b \<Longrightarrow> \<not> span_less b a"
  by (auto simp: span_less_def)

lemma first_month_init_Some: "first_month ms tok (Some f) \<noteq> None"
proof (induction ms arbitrary: f)
  case Nil
  then show ?case by simp
next
  case (Cons e ms)
  obtain r m where e: "e = (r, m)"
    by (cases e)
  obtain fsp fid where f: "f = (fsp, fid)"
    by (cases f)
  show ?case
  proof (cases "search r tok")
    case None
    with e Cons.IH [of f] show ?thesis by simp
  next
    case (Some sp0)
    with e f Cons.IH [of f] Cons.IH [of "(sp0, m)"] show ?thesis by simp
  qed
qed

lemma first_month_None_iff:
  "first_month ms tok None = None \<longleftrightarrow> list_all (\<lambda>e. search (fst e) tok = None) ms"
proof (induction ms)
  case Nil
  then show ?case by simp
next
  case (Cons e ms)
  obtain r m where e: "e = (r, m)"
    by (cases e)
  show ?case
  proof (cases "search r tok")
    case None
    with e Cons.IH show ?thesis by simp
  next
    case (Some sp0)
    with e first_month_init_Some [of ms tok "(sp0, m)"] show ?thesis by simp
  qed
qed

lemma wonI:
  "ms = pre @ (ws, mid) # post \<Longrightarrow> search ws tok = Some sp
    \<Longrightarrow> (case fm of None \<Rightarrow> True | Some f \<Rightarrow> span_less sp (fst f))
    \<Longrightarrow> list_all (span_after sp tok) pre \<Longrightarrow> list_all (span_not_before sp tok) post
    \<Longrightarrow> won ms tok fm sp mid"
  unfolding won_def by blast

lemma won_Cons:
  assumes "won ms tok fm' sp mid" and "span_after sp tok e"
    and "case fm of None \<Rightarrow> True | Some f \<Rightarrow> span_less sp (fst f)"
  shows "won (e # ms) tok fm sp mid"
proof -
  from assms(1) obtain pre ws post where p: "ms = pre @ (ws, mid) # post"
      "search ws tok = Some sp" "list_all (span_after sp tok) pre"
      "list_all (span_not_before sp tok) post"
    unfolding won_def by blast
  from p(1) have eq: "e # ms = (e # pre) @ (ws, mid) # post"
    by simp
  from p(3) assms(2) have pre: "list_all (span_after sp tok) (e # pre)"
    by simp
  from eq p(2) assms(3) pre p(4) show ?thesis
    by (rule wonI)
qed

lemma won_init: "won ms tok (Some (fsp, fid)) sp mid \<Longrightarrow> span_less sp fsp"
  unfolding won_def by auto

lemma first_month_char:
  assumes "first_month ms tok fm = Some (sp, mid)"
  shows "kept ms tok fm sp mid \<or> won ms tok fm sp mid"
  using assms
proof (induction ms arbitrary: fm)
  case Nil
  then show ?case by (simp add: kept_def)
next
  case (Cons e ms)
  obtain r m where e: "e = (r, m)"
    by (cases e)
  show ?case
  proof (cases "search r tok")
    case None
    then have after: "span_after sp tok e" and nb: "span_not_before sp tok e"
      using e by (simp_all add: span_after_def span_not_before_def)
    from Cons.prems e None have "first_month ms tok fm = Some (sp, mid)"
      by simp
    from Cons.IH [OF this] show ?thesis
    proof
      assume "kept ms tok fm sp mid"
      with nb have "kept (e # ms) tok fm sp mid"
        by (simp add: kept_def)
      then show ?thesis ..
    next
      assume w: "won ms tok fm sp mid"
      then have "case fm of None \<Rightarrow> True | Some f \<Rightarrow> span_less sp (fst f)"
        unfolding won_def by blast
      with w after have "won (e # ms) tok fm sp mid"
        by (intro won_Cons [of ms tok fm sp mid e fm])
      then show ?thesis ..
    qed
  next
    case (Some sp0)
    have new_case: "won (e # ms) tok fm sp mid"
      if f: "first_month ms tok (Some (sp0, m)) = Some (sp, mid)"
        and fm: "case fm of None \<Rightarrow> True | Some f \<Rightarrow> span_less sp0 (fst f)"
    proof -
      from Cons.IH [OF f] show ?thesis
      proof
        assume a: "kept ms tok (Some (sp0, m)) sp mid"
        then have eq: "sp0 = sp" "m = mid" and rest: "list_all (span_not_before sp tok) ms"
          by (simp_all add: kept_def)
        have 1: "e # ms = [] @ (r, mid) # ms"
          using e eq by simp
        have 2: "search r tok = Some sp"
          using Some eq by simp
        have 3: "case fm of None \<Rightarrow> True | Some f \<Rightarrow> span_less sp (fst f)"
          using fm by (cases fm) (simp_all add: eq)
        have 4: "list_all (span_after sp tok) []"
          by simp
        from 1 2 3 4 rest show ?thesis
          by (rule wonI)
      next
        assume w: "won ms tok (Some (sp0, m)) sp mid"
        then have less: "span_less sp sp0"
          by (rule won_init)
        with Some e have after: "span_after sp tok e"
          by (simp add: span_after_def)
        have init: "case fm of None \<Rightarrow> True | Some f \<Rightarrow> span_less sp (fst f)"
        proof (cases fm)
          case None
          then show ?thesis by simp
        next
          case (Some f)
          with fm have "span_less sp0 (fst f)"
            by simp
          with less have "span_less sp (fst f)"
            by (rule span_less_trans)
          with Some show ?thesis by simp
        qed
        from w after init show ?thesis
          by (rule won_Cons)
      qed
    qed
    show ?thesis
    proof (cases fm)
      case None
      with Cons.prems e Some have "first_month ms tok (Some (sp0, m)) = Some (sp, mid)"
        by simp
      moreover from None have "case fm of None \<Rightarrow> True | Some f \<Rightarrow> span_less sp0 (fst f)"
        by simp
      ultimately have "won (e # ms) tok fm sp mid"
        by (rule new_case)
      then show ?thesis ..
    next
      case fm: (Some f)
      obtain fsp fid where f: "f = (fsp, fid)"
        by (cases f)
      show ?thesis
      proof (cases "span_less sp0 fsp")
        case True
        with Cons.prems e Some fm f have "first_month ms tok (Some (sp0, m)) = Some (sp, mid)"
          by simp
        moreover from True fm f
        have "case fm of None \<Rightarrow> True | Some f \<Rightarrow> span_less sp0 (fst f)"
          by simp
        ultimately have "won (e # ms) tok fm sp mid"
          by (rule new_case)
        then show ?thesis ..
      next
        case False
        with Cons.prems e Some fm f have "first_month ms tok fm = Some (sp, mid)"
          by simp
        from Cons.IH [OF this] show ?thesis
        proof
          assume a: "kept ms tok fm sp mid"
          with fm f have "fsp = sp"
            by (simp add: kept_def)
          with False Some e have "span_not_before sp tok e"
            by (simp add: span_not_before_def)
          with a have "kept (e # ms) tok fm sp mid"
            by (simp add: kept_def)
          then show ?thesis ..
        next
          assume w: "won ms tok fm sp mid"
          with fm f have "won ms tok (Some (fsp, fid)) sp mid"
            by simp
          then have less: "span_less sp fsp"
            by (rule won_init)
          from less False have "span_less sp sp0"
            by (rule span_less_total)
          with Some e have after: "span_after sp tok e"
            by (simp add: span_after_def)
          from less fm f have init: "case fm of None \<Rightarrow> True | Some f \<Rightarrow> span_less sp (fst f)"
            by simp
          from w after init have "won (e # ms) tok fm sp mid"
            by (rule won_Cons)
          then show ?thesis ..
        qed
      qed
    qed
  qed
qed

lemma word_at_take: "word_at w s \<Longrightarrow> take (length w) s = w"
  by (induction w s rule: word_at.induct) (auto split: if_splits)

lemma match_here_Some: "match_here ws s = Some k \<Longrightarrow> \<exists>w\<in>set ws. word_at w s \<and> k = length w"
  by (induction ws) (auto split: if_splits)

lemma search_from_Some:
  "search_from ws i s = Some (a, b)
    \<Longrightarrow> i \<le> a \<and> (\<exists>w\<in>set ws. word_at w (drop (a - i) s) \<and> b = a + length w)"
proof (induction s arbitrary: i)
  case Nil
  then show ?case
    by (auto split: option.splits dest: match_here_Some)
next
  case (Cons c cs)
  show ?case
  proof (cases "match_here ws (c # cs)")
    case (Some k)
    with Cons.prems have "a = i" "b = i + k"
      by simp_all
    with match_here_Some [OF Some] show ?thesis
      by auto
  next
    case None
    with Cons.prems have "search_from ws (Suc i) cs = Some (a, b)"
      by simp
    from Cons.IH [OF this] obtain w where w: "Suc i \<le> a" "w \<in> set ws"
        "word_at w (drop (a - Suc i) cs)" "b = a + length w"
      by blast
    from w(1) have "drop (a - i) (c # cs) = drop (a - Suc i) cs"
      by (simp add: Suc_diff_le drop_Cons')
    with w show ?thesis
      by auto
  qed
qed

lemma search_Some:
  "search ws tok = Some (a, b)
    \<Longrightarrow> \<exists>w\<in>set ws. word_at w (drop a (map lower tok)) \<and> b = a + length w"
  unfolding search_def by (drule search_from_Some) simp

lemma same_start_key:
  assumes "word_at w1 s" and "word_at w2 s" and "3 \<le> length w1" and "3 \<le> length w2"
  shows "take 3 w1 = take 3 w2"
proof -
  from assms(1,3) have "take 3 w1 = take 3 s"
    by (metis word_at_take take_take min.absorb_iff1)
  moreover from assms(2,4) have "take 3 w2 = take 3 s"
    by (metis word_at_take take_take min.absorb_iff1)
  ultimately show ?thesis
    by simp
qed

lemma MONTHS_words_long: "list_all (\<lambda>e. list_all (\<lambda>w. 3 \<le> length w) (fst e)) MONTHS"
  by (simp add: MONTHS_def S_def)

lemma MONTHS_keys:
  "list_all (\<lambda>e1. list_all (\<lambda>e2. e1 = e2
      \<or> list_all (\<lambda>w1. list_all (\<lambda>w2. take 3 w1 \<noteq> take 3 w2) (fst e2)) (fst e1)) MONTHS) MONTHS"
  by (simp add: MONTHS_def S_def tag_def)

lemma MONTHS_same_start:
  assumes "e1 \<in> set MONTHS" and "e2 \<in> set MONTHS"
    and "search (fst e1) tok = Some (a, b1)" and "search (fst e2) tok = Some (a, b2)"
  shows "e1 = e2"
proof (rule ccontr)
  assume ne: "e1 \<noteq> e2"
  from search_Some [OF assms(3)] obtain w1 where w1: "w1 \<in> set (fst e1)"
      "word_at w1 (drop a (map lower tok))"
    by blast
  from search_Some [OF assms(4)] obtain w2 where w2: "w2 \<in> set (fst e2)"
      "word_at w2 (drop a (map lower tok))"
    by blast
  from MONTHS_words_long assms(1,2) w1(1) w2(1) have "3 \<le> length w1" "3 \<le> length w2"
    by (auto simp: list_all_iff)
  with w1(2) w2(2) have "take 3 w1 = take 3 w2"
    by (rule same_start_key)
  moreover from MONTHS_keys assms(1,2) ne w1(1) w2(1) have "take 3 w1 \<noteq> take 3 w2"
    unfolding list_all_iff by blast
  ultimately show False
    by simp
qed

lemma first_month_winner:
  assumes "first_month MONTHS tok None = Some ((a, b), mid)"
  shows "\<exists>pre ws post. MONTHS = pre @ (ws, mid) # post \<and> search ws tok = Some (a, b)
           \<and> list_all (starts_after a tok) pre \<and> list_all (starts_not_before a tok) post"
proof -
  from first_month_char [OF assms] have "won MONTHS tok None (a, b) mid"
    by (simp add: kept_def)
  then obtain pre ws post where p: "MONTHS = pre @ (ws, mid) # post"
      "search ws tok = Some (a, b)" "list_all (span_after (a, b) tok) pre"
      "list_all (span_not_before (a, b) tok) post"
    unfolding won_def by blast
  have "starts_after a tok e" if e: "e \<in> set pre" for e
  proof (cases "search (fst e) tok")
    case None
    then show ?thesis by (simp add: starts_after_def)
  next
    case (Some sp')
    obtain a' b' where sp': "sp' = (a', b')"
      by (cases sp')
    from p(3) e Some sp' have less: "span_less (a, b) (a', b')"
      by (auto simp: list_all_iff span_after_def)
    have "a \<noteq> a'"
    proof
      assume eq: "a = a'"
      have "set (pre @ (ws, mid) # post) = set MONTHS"
        by (simp only: p(1))
      with e have "e \<in> set MONTHS" "(ws, mid) \<in> set MONTHS"
        by auto
      moreover from Some sp' eq have "search (fst e) tok = Some (a, b')"
        by simp
      moreover from p(2) have "search (fst (ws, mid)) tok = Some (a, b)"
        by simp
      ultimately have "e = (ws, mid)"
        by (rule MONTHS_same_start)
      with Some sp' p(2) have "b' = b"
        by simp
      with less eq show False
        by (simp add: span_less_def)
    qed
    with less have "a < a'"
      by (simp add: span_less_def)
    with Some sp' show ?thesis
      by (simp add: starts_after_def)
  qed
  then have pre: "list_all (starts_after a tok) pre"
    by (simp add: list_all_iff)
  have "starts_not_before a tok e" if e: "e \<in> set post" for e
  proof (cases "search (fst e) tok")
    case None
    then show ?thesis by (simp add: starts_not_before_def)
  next
    case (Some sp')
    with p(4) e have "\<not> span_less sp' (a, b)"
      by (auto simp: list_all_iff span_not_before_def)
    then have "a \<le> fst sp'"
      by (auto simp: span_less_def)
    with Some show ?thesis
      by (simp add: starts_not_before_def)
  qed
  then have post: "list_all (starts_not_before a tok) post"
    by (simp add: list_all_iff)
  from p(1,2) pre post show ?thesis
    by blast
qed

lemma month_body_nomatch:
  "n < length l \<Longrightarrow> first_month MONTHS (l ! n) None = None
    \<Longrightarrow> month_body n l = Inr (Suc n, l, None)"
  by (simp add: month_body_def getitem_def)

lemma month_body_match:
  assumes "n < length l" and "first_month MONTHS (l ! n) None = Some (sp, mid)"
  shows "\<exists>n'. month_body n l = Inr (n', spliced l n sp mid, Some (PyStr (drop 2 mid)))"
  using assms
  by (cases sp)
    (auto simp: month_body_def getitem_def pop_def insert_at_def spliced_def Let_def
      nth_append min_def)

lemma month_loop_skip:
  assumes "n \<le> k" and "k \<le> length l"
    and "list_all (\<lambda>tok. first_month MONTHS tok None = None) (take (k - n) (drop n l))"
  shows "month_loop n l None = month_loop k l None"
  using assms
proof (induction "k - n" arbitrary: n)
  case 0
  then show ?case by simp
next
  case (Suc d)
  then have n: "n < length l" "n < k"
    by simp_all
  with Suc.hyps(2) have kn: "k - n = Suc (k - Suc n)"
    by simp
  from n have "drop n l = l ! n # drop (Suc n) l"
    by (simp add: Cons_nth_drop_Suc)
  with Suc.prems(3) kn have none: "first_month MONTHS (l ! n) None = None"
    and rest: "list_all (\<lambda>tok. first_month MONTHS tok None = None) (take (k - Suc n) (drop (Suc n) l))"
    by simp_all
  from n none have "month_loop n l None = month_loop (Suc n) l None"
    by (simp add: month_loop_step month_body_nomatch)
  also from Suc.hyps(2) n Suc.prems(2) rest have "\<dots> = month_loop k l None"
    by (intro Suc.hyps(1)) simp_all
  finally show ?case .
qed

lemma month_loop_no_month:
  assumes "list_all (\<lambda>tok. first_month MONTHS tok None = None) (drop n l)"
  shows "month_loop n l None = Inr (l, None)"
proof (cases "n \<le> length l")
  case True
  with assms have "month_loop n l None = month_loop (length l) l None"
    by (intro month_loop_skip) simp_all
  then show ?thesis
    by (simp add: month_loop_end)
next
  case False
  then show ?thesis
    by (simp add: month_loop_end)
qed

lemma month_loop_first_match:
  assumes "n \<le> k" and "k < length l"
    and "list_all (\<lambda>tok. first_month MONTHS tok None = None) (take (k - n) (drop n l))"
    and "first_month MONTHS (l ! k) None = Some (sp, mid)"
  shows "month_loop n l None = Inr (spliced l k sp mid, Some (PyStr (drop 2 mid)))"
proof -
  from assms(1-3) have "month_loop n l None = month_loop k l None"
    by (intro month_loop_skip) simp_all
  moreover from month_body_match [OF assms(2,4)] obtain n'
    where "month_body k l = Inr (n', spliced l k sp mid, Some (PyStr (drop 2 mid)))"
    by blast
  ultimately show ?thesis
    using assms(2) by (simp add: month_loop_step month_loop_set)
qed

section \<open>The year slot\<close>

text \<open>
  The rules of lines 154, 160 and 163 test \<open>year is None\<close>: a run that does not end
  the loop leaves a year that is set as it is, and a run ends the loop on a set year
  only through one of the five block rules.
\<close>

lemma cond_ym4_year_set: "year st = Some y \<Longrightarrow> cond_ym4 st x = Inr False"
  by (simp add: cond_ym4_def)

lemma tag_run_keeps_year:
  "year st = Some y \<Longrightarrow> tag_run yh st n x v = Inr (Continue st') \<Longrightarrow> year st' = Some y"
  by (auto simp: tag_run_def setitem_def split: if_splits)

lemma tag_run_no_break: "tag_run yh st n x v \<noteq> Inr (Break st')"
  by (auto simp: tag_run_def setitem_def bind_e_def and_e_def split: if_splits sum.splits)

lemma classify_run_keeps_year:
  assumes "year st = Some y" and "classify_run yh st n x = Inr (Continue st')"
  shows "year st' = Some y"
  using assms
  by (auto simp: classify_run_def cond_ym4_year_set bind_e_def split: if_splits sum.splits
      dest: tag_run_keeps_year)

lemma classify_run_break_block:
  assumes "year st = Some y" and "classify_run yh st n x = Inr (Break st')"
  shows "block_rule yh x"
  using assms
  by (auto simp: classify_run_def block_rule_def cond_ym4_year_set bind_e_def tag_run_no_break
      split: if_splits sum.splits)

lemma classify_keeps_year:
  assumes "year st = Some y" and "classify yh st rest = Inr st'"
  shows "year st' = Some y \<or> list_ex (\<lambda>(n, x). block_rule yh x) rest"
  using assms
proof (induction rest arbitrary: st)
  case Nil
  then show ?case by simp
next
  case (Cons p rest)
  obtain n x where p: "p = (n, x)"
    by (cases p)
  show ?case
  proof (cases "classify_run yh st n x")
    case (Inl e)
    with Cons.prems p show ?thesis by simp
  next
    case (Inr f)
    show ?thesis
    proof (cases f)
      case (Continue st1)
      with Inr Cons.prems p have "year st1 = Some y" "classify yh st1 rest = Inr st'"
        by (auto dest: classify_run_keeps_year)
      from Cons.IH [OF this] show ?thesis by auto
    next
      case (Break st1)
      with Inr Cons.prems p have "block_rule yh x"
        by (auto dest: classify_run_break_block)
      with p show ?thesis by simp
    qed
  qed
qed

section \<open>The two-candidate rule\<close>

lemma disambiguate_dmy:
  assumes "length ns = 2" and "l \<noteq> []" and "take 2 (last l) = tag ''y''"
    and "1 \<le> ns ! 0 \<and> ns ! 0 \<le> 31" and "1 \<le> ns ! 1 \<and> ns ! 1 \<le> 12"
    and "two_seps (concat l)" and "mon = None \<or> dy = None"
  shows "disambiguate y mon dy ns l = Inr (Some (fmt_ymd y (ns ! 1) (ns ! 0)))"
proof -
  from assms have tc: "two_candidates y ns l = Inr (Some (fmt_ymd y (ns ! 1) (ns ! 0)))"
    by (simp add: two_candidates_def getlast_def getitem_def)
  from assms(1,7) tc show ?thesis
    by (auto simp: disambiguate_def)
qed

lemma two_candidates_only:
  assumes "two_candidates y ns l = Inr (Some r)"
  shows "l \<noteq> [] \<and> (take 2 (last l) = tag ''y'' \<and> r = fmt_ymd y (ns ! 1) (ns ! 0)
                  \<or> take 2 (hd l) = tag ''y'' \<and> r = fmt_ymd y (ns ! 0) (ns ! 1))"
  using assms
  by (auto simp: two_candidates_def getlast_def getitem_def bind_e_def and_e_def Let_def
      hd_conv_nth split: if_splits sum.splits)

lemma two_candidates_blocked:
  assumes "l \<noteq> []" and "take 2 (last l) \<noteq> tag ''y''" and "take 2 (hd l) \<noteq> tag ''y''"
  shows "two_candidates y ns l = Inr None"
  using assms by (simp add: two_candidates_def getlast_def getitem_def hd_conv_nth)

section \<open>Evaluation on concrete inputs\<close>

lemma replicate_numeral_unfold: "replicate (numeral k) x = x # replicate (pred_numeral k) x"
  by (simp add: numeral_eq_Suc)

text \<open>
  The character functions on the characters of the inputs evaluated below, so that
  an evaluation rewrites each call in one step.
\<close>

lemma lower_ev:
  "lower (L1 (CHR ''0'')) = L1 (CHR ''0'')"
  "lower (L1 (CHR ''1'')) = L1 (CHR ''1'')"
  "lower (L1 (CHR ''2'')) = L1 (CHR ''2'')"
  "lower (L1 (CHR ''3'')) = L1 (CHR ''3'')"
  "lower (L1 (CHR ''4'')) = L1 (CHR ''4'')"
  "lower (L1 (CHR ''5'')) = L1 (CHR ''5'')"
  "lower (L1 (CHR ''6'')) = L1 (CHR ''6'')"
  "lower (L1 (CHR ''7'')) = L1 (CHR ''7'')"
  "lower (L1 (CHR ''8'')) = L1 (CHR ''8'')"
  "lower (L1 (CHR ''9'')) = L1 (CHR ''9'')"
  "lower (L1 (CHR ''.'')) = L1 (CHR ''.'')"
  "lower (L1 (CHR ''-'')) = L1 (CHR ''-'')"
  "lower (L1 (CHR '' '')) = L1 (CHR '' '')"
  "lower (L1 (CHR ''a'')) = L1 (CHR ''a'')"
  "lower (L1 (CHR ''b'')) = L1 (CHR ''b'')"
  "lower (L1 (CHR ''c'')) = L1 (CHR ''c'')"
  "lower (L1 (CHR ''d'')) = L1 (CHR ''d'')"
  "lower (L1 (CHR ''e'')) = L1 (CHR ''e'')"
  "lower (L1 (CHR ''f'')) = L1 (CHR ''f'')"
  "lower (L1 (CHR ''g'')) = L1 (CHR ''g'')"
  "lower (L1 (CHR ''h'')) = L1 (CHR ''h'')"
  "lower (L1 (CHR ''i'')) = L1 (CHR ''i'')"
  "lower (L1 (CHR ''j'')) = L1 (CHR ''j'')"
  "lower (L1 (CHR ''k'')) = L1 (CHR ''k'')"
  "lower (L1 (CHR ''l'')) = L1 (CHR ''l'')"
  "lower (L1 (CHR ''m'')) = L1 (CHR ''m'')"
  "lower (L1 (CHR ''n'')) = L1 (CHR ''n'')"
  "lower (L1 (CHR ''o'')) = L1 (CHR ''o'')"
  "lower (L1 (CHR ''p'')) = L1 (CHR ''p'')"
  "lower (L1 (CHR ''q'')) = L1 (CHR ''q'')"
  "lower (L1 (CHR ''r'')) = L1 (CHR ''r'')"
  "lower (L1 (CHR ''s'')) = L1 (CHR ''s'')"
  "lower (L1 (CHR ''t'')) = L1 (CHR ''t'')"
  "lower (L1 (CHR ''u'')) = L1 (CHR ''u'')"
  "lower (L1 (CHR ''v'')) = L1 (CHR ''v'')"
  "lower (L1 (CHR ''w'')) = L1 (CHR ''w'')"
  "lower (L1 (CHR ''x'')) = L1 (CHR ''x'')"
  "lower (L1 (CHR ''y'')) = L1 (CHR ''y'')"
  "lower (L1 (CHR ''z'')) = L1 (CHR ''z'')"
  "lower (L1 (CHR ''A'')) = L1 (CHR ''a'')"
  "lower (L1 (CHR ''M'')) = L1 (CHR ''m'')"
  "lower Ellipsis = Ellipsis"
  by (simp_all add: lower_def)

lemma isdigit_ev:
  "isdigit (L1 (CHR ''0'')) = True"
  "isdigit (L1 (CHR ''1'')) = True"
  "isdigit (L1 (CHR ''2'')) = True"
  "isdigit (L1 (CHR ''3'')) = True"
  "isdigit (L1 (CHR ''4'')) = True"
  "isdigit (L1 (CHR ''5'')) = True"
  "isdigit (L1 (CHR ''6'')) = True"
  "isdigit (L1 (CHR ''7'')) = True"
  "isdigit (L1 (CHR ''8'')) = True"
  "isdigit (L1 (CHR ''9'')) = True"
  "isdigit (L1 (CHR ''.'')) = False"
  "isdigit (L1 (CHR ''-'')) = False"
  "isdigit (L1 (CHR '' '')) = False"
  "isdigit (L1 (CHR ''a'')) = False"
  "isdigit (L1 (CHR ''b'')) = False"
  "isdigit (L1 (CHR ''c'')) = False"
  "isdigit (L1 (CHR ''d'')) = False"
  "isdigit (L1 (CHR ''e'')) = False"
  "isdigit (L1 (CHR ''f'')) = False"
  "isdigit (L1 (CHR ''g'')) = False"
  "isdigit (L1 (CHR ''h'')) = False"
  "isdigit (L1 (CHR ''i'')) = False"
  "isdigit (L1 (CHR ''j'')) = False"
  "isdigit (L1 (CHR ''k'')) = False"
  "isdigit (L1 (CHR ''l'')) = False"
  "isdigit (L1 (CHR ''m'')) = False"
  "isdigit (L1 (CHR ''n'')) = False"
  "isdigit (L1 (CHR ''o'')) = False"
  "isdigit (L1 (CHR ''p'')) = False"
  "isdigit (L1 (CHR ''q'')) = False"
  "isdigit (L1 (CHR ''r'')) = False"
  "isdigit (L1 (CHR ''s'')) = False"
  "isdigit (L1 (CHR ''t'')) = False"
  "isdigit (L1 (CHR ''u'')) = False"
  "isdigit (L1 (CHR ''v'')) = False"
  "isdigit (L1 (CHR ''w'')) = False"
  "isdigit (L1 (CHR ''x'')) = False"
  "isdigit (L1 (CHR ''y'')) = False"
  "isdigit (L1 (CHR ''z'')) = False"
  "isdigit (L1 (CHR ''A'')) = False"
  "isdigit (L1 (CHR ''M'')) = False"
  "isdigit Ellipsis = False"
  "isdigit (L1 (CHR 0xB2)) = True"
  "isdigit (L1 (CHR 0xB3)) = True"
  by (simp_all add: isdigit_def isdecimal_def digits_def superscripts_def)

lemma isdecimal_ev:
  "isdecimal (L1 (CHR ''0'')) = True"
  "isdecimal (L1 (CHR ''1'')) = True"
  "isdecimal (L1 (CHR ''2'')) = True"
  "isdecimal (L1 (CHR ''3'')) = True"
  "isdecimal (L1 (CHR ''4'')) = True"
  "isdecimal (L1 (CHR ''5'')) = True"
  "isdecimal (L1 (CHR ''6'')) = True"
  "isdecimal (L1 (CHR ''7'')) = True"
  "isdecimal (L1 (CHR ''8'')) = True"
  "isdecimal (L1 (CHR ''9'')) = True"
  "isdecimal (L1 (CHR 0xB2)) = False"
  "isdecimal (L1 (CHR 0xB3)) = False"
  by (simp_all add: isdecimal_def digits_def)

lemma digit_value_ev:
  "digit_value (L1 (CHR ''0'')) = Some 0"
  "digit_value (L1 (CHR ''1'')) = Some 1"
  "digit_value (L1 (CHR ''2'')) = Some 2"
  "digit_value (L1 (CHR ''3'')) = Some 3"
  "digit_value (L1 (CHR ''4'')) = Some 4"
  "digit_value (L1 (CHR ''5'')) = Some 5"
  "digit_value (L1 (CHR ''6'')) = Some 6"
  "digit_value (L1 (CHR ''7'')) = Some 7"
  "digit_value (L1 (CHR ''8'')) = Some 8"
  "digit_value (L1 (CHR ''9'')) = Some 9"
  by (simp_all add: digits_def)

declare digit_value.simps [simp del]

lemmas ev = interpret_date_def scan_def MAX_STR_DIGITS_def tokenize_def tok_step_def bind_e_def and_e_def getitem_def
  getlast_def setitem_def pop_def insert_at_def str_isdigit_def decimal_def classify_run_def
  tag_run_def cond_ymd8_def cond_dmy8_def cond_ym6_def cond_ymd6_def cond_dmy6_def cond_ym4_def
  is_year_def is_y2k_def is_month_def is_day_def YEAR_LOW_def Y2K_LOW_def Y2K_HIGH_def slice_def
  tag_def S_def emit_def disambiguate_def two_candidates_def two_seps_def fmt_ymd_def fmt_ym_def
  fmt_y_def fmt_d_def digit_char_def month_body_def MONTHS_def search_def span_less_def
  replicate_numeral_unfold numeral_of.simps month_loop.simps lower_ev isdigit_ev isdecimal_ev
  digit_value_ev

section \<open>The claims\<close>

text \<open>
  Claim C1: a 4-digit run whose first two digits lie in [32, 99] and whose last two
  digits lie in [1, 12], met while the year is unset, commits the year 1900+yy and the
  month and stops the scan, so the year of the result lies in [1900, current year].
  The source, line 155, commits \<open>int(x[:2])\<close> without adding 1900, unlike lines 143,
  149 and 165: the input \<open>8312\<close> gives \<open>0083-12\<close>, whatever the current year.
\<close>

theorem C1_yymm_commits_bare_year:
  "interpret_date yh (S ''8312'') = Inr (Some (S ''0083-12''))"
  by (simp add: ev)

text \<open>
  Claim C7: on a non-empty input, \<open>interpret\<close> reaches no error. The source raises
  ValueError on the one-character input U+00B2 (superscript two): \<open>x.isdigit()\<close>
  accepts the run at line 120 and \<open>int(x)\<close> rejects it at line 122.
\<close>

theorem C7_superscript_raises:
  "interpret_date yh [L1 (CHR 0xB2)] = Inl ValueError"
  by (simp add: ev)

text \<open>
  Claim C10, as it stands: a digit run of length 3, 5, 7 or at least 9 never
  contributes to the result in any way. Such a run stays a token of the list, and
  the two-candidate rule looks at the first and the last token: with the current year
  2024, \<open>12.11.1983\<close> followed by the two characters of the year tag gives
  \<open>1983-11-12\<close>, and the same input followed by the run \<open>123\<close> gives \<open>1983\<close>.
\<close>

theorem C10_counterexample:
  "interpret_date 2024 (S ''12.11.1983'' @ [Ellipsis, L1 (CHR ''y'')])
     = Inr (Some (S ''1983-11-12''))
   \<and> interpret_date 2024 (S ''12.11.1983'' @ [Ellipsis, L1 (CHR ''y'')] @ S ''123'')
     = Inr (Some (S ''1983''))"
  by (simp add: ev)

text \<open>
  Claim C10, amended: for a run of decimal digits of length 3, 5, 7, or from 9 up to
  the limit of \<open>int\<close> (4300 digits), and for a run of at most two decimal digits whose
  value is 0, the classifier sets no year, month or day, adds nothing to the candidate
  numbers and leaves the token untagged (the state after the run is the state before
  it, and the loop goes on), and the month-name matcher finds no month in the token.
\<close>

theorem C10_unmatched_runs_ignored:
  assumes "list_all isdecimal x"
    and "length x = 3 \<or> length x = 5 \<or> length x = 7
         \<or> (9 \<le> length x \<and> length x \<le> MAX_STR_DIGITS)
         \<or> (x \<noteq> [] \<and> length x \<le> 2 \<and> decimal x = 0)"
  shows "classify_run yh st n x = Inr (Continue st) \<and> first_month MONTHS x None = None"
  using assms by (simp add: classify_run_ignored first_month_decimal)

theorem C10_unmatched_runs_ignored_witness:
  "list_all isdecimal (S ''123'') \<and> length (S ''123'') = 3
   \<and> classify_run 2024
        \<lparr>year = None, month = None, day = None, nbrs = [], toks = [S ''123'']\<rparr> 0 (S ''123'')
      = Inr (Continue \<lparr>year = None, month = None, day = None, nbrs = [], toks = [S ''123'']\<rparr>)
   \<and> first_month MONTHS (S ''123'') None = None
   \<and> list_all isdecimal (S ''123456789'') \<and> 9 \<le> length (S ''123456789'')
   \<and> length (S ''123456789'') \<le> MAX_STR_DIGITS
   \<and> classify_run 2024
        \<lparr>year = None, month = None, day = None, nbrs = [], toks = [S ''123456789'']\<rparr> 0
        (S ''123456789'')
      = Inr (Continue
          \<lparr>year = None, month = None, day = None, nbrs = [], toks = [S ''123456789'']\<rparr>)
   \<and> list_all isdecimal (S ''00'') \<and> length (S ''00'') \<le> 2 \<and> decimal (S ''00'') = 0
   \<and> classify_run 2024
        \<lparr>year = None, month = None, day = None, nbrs = [], toks = [S ''00'']\<rparr> 0 (S ''00'')
      = Inr (Continue \<lparr>year = None, month = None, day = None, nbrs = [], toks = [S ''00'']\<rparr>)"
  using C10_unmatched_runs_ignored [where x = "S ''123''" and yh = 2024 and n = 0
      and st = "\<lparr>year = None, month = None, day = None, nbrs = [], toks = [S ''123'']\<rparr>"]
    C10_unmatched_runs_ignored [where x = "S ''123456789''" and yh = 2024 and n = 0
      and st = "\<lparr>year = None, month = None, day = None, nbrs = [], toks = [S ''123456789'']\<rparr>"]
    C10_unmatched_runs_ignored [where x = "S ''00''" and yh = 2024 and n = 0
      and st = "\<lparr>year = None, month = None, day = None, nbrs = [], toks = [S ''00'']\<rparr>"]
  by (simp add: S_def isdecimal_ev digit_value_ev decimal_def MAX_STR_DIGITS_def)

text \<open>
  Claim C2: once a classifier rule has set the year, no later digit run overwrites it,
  later 8-digit and 6-digit full-date runs included. The source tests
  \<open>year is None\<close> at lines 154, 160 and 163 only; the rules of lines 124-152 assign the
  year unconditionally. With the current year 2024, the input \<open>1983 20230415\<close> sets
  the year 1983 at its first run and returns \<open>2023-04-15\<close>.
\<close>

theorem C2_block_run_overwrites_year:
  "interpret_date 2024 (S ''1983 20230415'') = Inr (Some (S ''2023-04-15''))"
  by (simp add: ev)

text \<open>
  Claim C3, as it stands: \<open>interpret("12.11.1983")\<close> returns \<open>1983-11-12\<close>, and whenever
  two candidate numbers remain, the last token carries the year tag, the first
  candidate is in [1, 31], the second in [1, 12], and the joined token text has
  exactly two \<open>.\<close> (or two \<open>-\<close>), the disambiguator emits year-candidate[1]-candidate[0].
  The general part fails when month and day are both set already: line 208 returns
  before line 223 is reached. The input \<open>1.2 aug 13.1983\<close> reaches line 199 with the
  candidates 1 and 2, the month 8 from the name, the day 13, the year tag on the last
  token and two \<open>.\<close> in the text, and the result is \<open>1983-08-13\<close>, not \<open>1983-02-01\<close>.
\<close>

theorem C3_counterexample:
  "scan 2024 (S ''1.2 aug 13.1983'')
     = Inr \<lparr>year = Some 1983, month = Some (PyStr (S ''8'')), day = Some 13, nbrs = [1, 2],
            toks = [tag ''n1'', S ''.'', tag ''n2'', S '' '', tag ''m8'', S '' '', tag ''d13'',
                    S ''.'', tag ''y1983'']\<rparr>
   \<and> interpret_date 2024 (S ''1.2 aug 13.1983'') = Inr (Some (S ''1983-08-13''))"
  by (simp add: ev)

text \<open>
  Claim C3, amended: \<open>interpret("12.11.1983")\<close> returns \<open>1983-11-12\<close> (the current year
  being at least 1983), and whenever month and day are not both set, two candidate
  numbers remain, the last token starts with the year tag, the first candidate is in
  [1, 31], the second in [1, 12], and the joined token text has exactly two \<open>.\<close> or
  exactly two \<open>-\<close>, the disambiguator emits year-candidate[1]-candidate[0].
\<close>

theorem C3_dmy_reading:
  "(1983 \<le> yh \<longrightarrow> interpret_date yh (S ''12.11.1983'') = Inr (Some (S ''1983-11-12'')))
   \<and> (length ns = 2 \<and> l \<noteq> [] \<and> take 2 (last l) = tag ''y''
        \<and> 1 \<le> ns ! 0 \<and> ns ! 0 \<le> 31 \<and> 1 \<le> ns ! 1 \<and> ns ! 1 \<le> 12
        \<and> two_seps (concat l) \<and> (mon = None \<or> dy = None)
      \<longrightarrow> disambiguate y mon dy ns l = Inr (Some (fmt_ymd y (ns ! 1) (ns ! 0))))"
proof (intro conjI impI)
  assume "1983 \<le> yh"
  then show "interpret_date yh (S ''12.11.1983'') = Inr (Some (S ''1983-11-12''))"
    by (simp add: ev)
next
  assume "length ns = 2 \<and> l \<noteq> [] \<and> take 2 (last l) = tag ''y''
        \<and> 1 \<le> ns ! 0 \<and> ns ! 0 \<le> 31 \<and> 1 \<le> ns ! 1 \<and> ns ! 1 \<le> 12
        \<and> two_seps (concat l) \<and> (mon = None \<or> dy = None)"
  then show "disambiguate y mon dy ns l = Inr (Some (fmt_ymd y (ns ! 1) (ns ! 0)))"
    by (intro disambiguate_dmy) simp_all
qed

theorem C3_dmy_reading_witness:
  "interpret_date 2024 (S ''12.11.1983'') = Inr (Some (S ''1983-11-12''))
   \<and> disambiguate 1983 None None [12, 11]
        [tag ''n12'', S ''.'', tag ''n11'', S ''.'', tag ''y1983'']
      = Inr (Some (S ''1983-11-12''))"
  using C3_dmy_reading [where yh = 2024 and y = 1983 and mon = None and dy = None
      and ns = "[12, 11]" and l = "[tag ''n12'', S ''.'', tag ''n11'', S ''.'', tag ''y1983'']"]
  by (simp add: tag_def S_def two_seps_def fmt_ymd_def fmt_d_def numeral_of.simps digit_char_def
      replicate_numeral_unfold)

text \<open>
  Claim C6: on a non-empty input \<open>interpret\<close> has two outcomes only, \<open>None\<close> when no
  rule has set a year and a date string otherwise. The source has a third one: on
  \<open>1983\<close>, a blank and U+00B2 (superscript two) the first run sets the year 1983, and
  the last run raises ValueError at line 122, so that neither \<open>None\<close> nor a date
  string is returned.
\<close>

theorem C6_third_outcome:
  "interpret_date yh (S ''1983 '' @ [L1 (CHR 0xB2)]) = Inl ValueError"
  by (simp add: ev)

text \<open>
  Claim C9, as it stands: the two-candidate rule fires only when the year-tagged token
  is the last (DMY) or the first (YMD) token, and any leading or trailing non-digit
  text around the date prevents both readings. Leading text does not prevent the DMY
  reading: with the current year 2024, a blank followed by \<open>12.11.1983\<close> still gives
  \<open>1983-11-12\<close>.
\<close>

theorem C9_counterexample:
  "interpret_date 2024 (S '' 12.11.1983'') = Inr (Some (S ''1983-11-12''))"
  by (simp add: ev)

text \<open>
  Claim C9, amended: whenever the two-candidate rule returns a date, either the last
  token starts with the two characters of the year tag and the date is the DMY
  reading, or the first token starts with them and the date is the YMD reading; when
  neither the first nor the last token starts with those characters, the rule returns
  nothing. For example \<open>12.11.1983\<close> followed by a blank gives the year alone,
  \<open>1983\<close> (the current year being at least 1983).
\<close>

theorem C9_two_candidate_rule_positions:
  "(two_candidates y ns l = Inr (Some r) \<longrightarrow>
      l \<noteq> [] \<and> (take 2 (last l) = tag ''y'' \<and> r = fmt_ymd y (ns ! 1) (ns ! 0)
               \<or> take 2 (hd l) = tag ''y'' \<and> r = fmt_ymd y (ns ! 0) (ns ! 1)))
   \<and> (l \<noteq> [] \<and> take 2 (last l) \<noteq> tag ''y'' \<and> take 2 (hd l) \<noteq> tag ''y''
        \<longrightarrow> two_candidates y ns l = Inr None)
   \<and> (1983 \<le> yh \<longrightarrow> interpret_date yh (S ''12.11.1983 '') = Inr (Some (S ''1983'')))"
proof -
  have only: "two_candidates y ns l = Inr (Some r) \<longrightarrow>
      l \<noteq> [] \<and> (take 2 (last l) = tag ''y'' \<and> r = fmt_ymd y (ns ! 1) (ns ! 0)
               \<or> take 2 (hd l) = tag ''y'' \<and> r = fmt_ymd y (ns ! 0) (ns ! 1))"
    using two_candidates_only [of y ns l r] by blast
  have blocked: "l \<noteq> [] \<and> take 2 (last l) \<noteq> tag ''y'' \<and> take 2 (hd l) \<noteq> tag ''y''
        \<longrightarrow> two_candidates y ns l = Inr None"
    by (simp add: two_candidates_blocked)
  have example: "1983 \<le> yh \<longrightarrow> interpret_date yh (S ''12.11.1983 '') = Inr (Some (S ''1983''))"
    by (simp add: ev)
  show ?thesis
    by (rule conjI [OF only conjI [OF blocked example]])
qed

theorem C9_two_candidate_rule_positions_witness:
  "two_candidates 1983 [12, 11] [tag ''n12'', S ''.'', tag ''n11'', S ''.'', tag ''y1983'']
     = Inr (Some (S ''1983-11-12''))
   \<and> take 2 (last [tag ''n12'', S ''.'', tag ''n11'', S ''.'', tag ''y1983'']) = tag ''y''
   \<and> take 2 (last [tag ''n12'', S ''.'', tag ''n11'', S ''.'', tag ''y1983'', S '' ''])
       \<noteq> tag ''y''
   \<and> take 2 (hd [tag ''n12'', S ''.'', tag ''n11'', S ''.'', tag ''y1983'', S '' ''])
       \<noteq> tag ''y''
   \<and> two_candidates 1983 [12, 11]
        [tag ''n12'', S ''.'', tag ''n11'', S ''.'', tag ''y1983'', S '' ''] = Inr None
   \<and> interpret_date 2024 (S ''12.11.1983 '') = Inr (Some (S ''1983''))"
  using C9_two_candidate_rule_positions [where yh = 2024 and y = 1983 and ns = "[12, 11]"
      and r = "S ''1983-11-12''"
      and l = "[tag ''n12'', S ''.'', tag ''n11'', S ''.'', tag ''y1983'']"]
    C9_two_candidate_rule_positions [where yh = 2024 and y = 1983 and ns = "[12, 11]"
      and r = "S ''1983-11-12''"
      and l = "[tag ''n12'', S ''.'', tag ''n11'', S ''.'', tag ''y1983'', S '' '']"]
  by (simp add: two_candidates_def getlast_def getitem_def two_seps_def tag_def S_def
      fmt_ymd_def fmt_d_def numeral_of.simps digit_char_def replicate_numeral_unfold)

text \<open>
  Claim C4: on a non-empty input the tokenizer returns runs such that (a) the runs,
  concatenated in order, are the input, (b) each run is entirely decimal digits or
  entirely non-digits, and (c) neighbouring runs differ in their class. The source
  splits with \<open>str.isdigit\<close> (line 113), which accepts the superscript digits: on the
  two characters \<open>1\<close> and U+00B2 (superscript two) the tokenizer returns one run, which
  is neither entirely decimal digits nor free of them.
\<close>

theorem C4_mixed_run:
  "tokenize [L1 (CHR ''1''), L1 (CHR 0xB2)] = Inr [[L1 (CHR ''1''), L1 (CHR 0xB2)]]
   \<and> \<not> list_all isdecimal [L1 (CHR ''1''), L1 (CHR 0xB2)]
   \<and> \<not> list_all (\<lambda>c. \<not> isdecimal c) [L1 (CHR ''1''), L1 (CHR 0xB2)]"
  by (simp add: tokenize_def tok_step_def getitem_def getlast_def isdigit_ev isdecimal_ev)

text \<open>
  Claim C8: \<open>interpret\<close> terminates on every non-empty input. The tokenizer and the
  classifier are \<open>for\<close> loops over a finite sequence; the month-name loop is a
  \<open>while\<close> loop that edits the list it scans. Each of its iterations either sets the
  month, which ends the loop, or moves the index one token on and leaves the list as
  it is; so the loop, started at index \<open>n\<close> of the list \<open>l\<close>, has returned after its
  condition has been tested at most \<open>length l - n + 2\<close> times.
\<close>

theorem C8_month_loop_terminates:
  "(month_body n l = Inr (n', l', mon') \<longrightarrow> mon' \<noteq> None \<or> (n' = Suc n \<and> l' = l))
   \<and> month_loop_fuel (length l - n + 2) n l mon = Some (month_loop n l mon)"
  using month_body_progress [of n l n' l' mon']
    month_loop_fuel_enough [of mon l n "length l - n + 2"]
  by auto

theorem C8_month_loop_terminates_witness:
  "month_body 1 [S ''1983'', S '' aug'']
     = Inr (3, [S ''1983'', S '' '', tag ''m8''], Some (PyStr (S ''8'')))
   \<and> month_loop_fuel (length [S ''1983'', S '' aug''] - 1 + 2) 1 [S ''1983'', S '' aug''] None
     = Some (month_loop 1 [S ''1983'', S '' aug''] None)
   \<and> month_loop 1 [S ''1983'', S '' aug''] None
     = Inr ([S ''1983'', S '' '', tag ''m8''], Some (PyStr (S ''8'')))"
  using C8_month_loop_terminates [where n = 1 and l = "[S ''1983'', S '' aug'']" and n' = 3
      and l' = "[S ''1983'', S '' '', tag ''m8'']" and mon' = "Some (PyStr (S ''8''))"
      and mon = None]
  by (simp add: ev)

text \<open>
  Claim C5: the month-name matcher runs only while the month is unset; it scans the
  tokens from left to right and stops at the first token in which a catalogue entry
  matches, setting the month once; in that token, the entry whose match starts
  earliest wins, and on equal starts the entry listed first. In the order of the
  statement: with the month set the loop returns at once; when no token from index
  \<open>n\<close> on has a match, the list and the unset month are returned; when the token at
  index \<open>k\<close> is the first with a match, that token alone is split and the month is
  the number of the winning tag; a token has no match exactly when no entry of the
  catalogue matches in it; and the winning entry matches at the winning span, every
  entry listed before it that matches starts later, and every entry listed after it
  that matches starts no earlier.
\<close>

theorem C5_month_name_matcher:
  "month_loop n l (Some v) = Inr (l, Some v)
   \<and> (list_all (\<lambda>tok. first_month MONTHS tok None = None) (drop n l)
        \<longrightarrow> month_loop n l None = Inr (l, None))
   \<and> (n \<le> k \<and> k < length l
        \<and> list_all (\<lambda>tok. first_month MONTHS tok None = None) (take (k - n) (drop n l))
        \<and> first_month MONTHS (l ! k) None = Some (sp, mid)
        \<longrightarrow> month_loop n l None = Inr (spliced l k sp mid, Some (PyStr (drop 2 mid))))
   \<and> (first_month MONTHS tok None = None
        \<longleftrightarrow> list_all (\<lambda>e. search (fst e) tok = None) MONTHS)
   \<and> (first_month MONTHS tok None = Some ((a, b), mid')
        \<longrightarrow> (\<exists>pre ws post. MONTHS = pre @ (ws, mid') # post \<and> search ws tok = Some (a, b)
               \<and> list_all (starts_after a tok) pre \<and> list_all (starts_not_before a tok) post))"
proof -
  have 1: "month_loop n l (Some v) = Inr (l, Some v)"
    by (rule month_loop_set)
  have 2: "list_all (\<lambda>tok. first_month MONTHS tok None = None) (drop n l)
        \<longrightarrow> month_loop n l None = Inr (l, None)"
    by (simp add: month_loop_no_month)
  have 3: "n \<le> k \<and> k < length l
        \<and> list_all (\<lambda>tok. first_month MONTHS tok None = None) (take (k - n) (drop n l))
        \<and> first_month MONTHS (l ! k) None = Some (sp, mid)
        \<longrightarrow> month_loop n l None = Inr (spliced l k sp mid, Some (PyStr (drop 2 mid)))"
    using month_loop_first_match [of n k l sp mid] by blast
  have 4: "first_month MONTHS tok None = None
        \<longleftrightarrow> list_all (\<lambda>e. search (fst e) tok = None) MONTHS"
    by (rule first_month_None_iff)
  have 5: "first_month MONTHS tok None = Some ((a, b), mid')
        \<longrightarrow> (\<exists>pre ws post. MONTHS = pre @ (ws, mid') # post \<and> search ws tok = Some (a, b)
               \<and> list_all (starts_after a tok) pre \<and> list_all (starts_not_before a tok) post)"
    using first_month_winner [of tok a b mid'] by blast
  show ?thesis
    by (rule conjI [OF 1 conjI [OF 2 conjI [OF 3 conjI [OF 4 5]]]])
qed

theorem C5_month_name_matcher_witness:
  "list_all (\<lambda>tok. first_month MONTHS tok None = None) (drop 0 [S ''12'', S ''.''])
   \<and> month_loop 0 [S ''12'', S ''.''] None = Inr ([S ''12'', S ''.''], None)
   \<and> first_month MONTHS (S ''12 '') None = None
   \<and> first_month MONTHS (S ''xAug may'') None = Some ((1, 4), tag ''m8'')
   \<and> month_loop 0 [S ''12 '', S ''xAug may'', S ''juni''] None
       = Inr ([S ''12 '', S ''x'', tag ''m8'', S '' may'', S ''juni''], Some (PyStr (S ''8'')))
   \<and> (\<exists>pre ws post. MONTHS = pre @ (ws, tag ''m8'') # post
          \<and> search ws (S ''xAug may'') = Some (1, 4)
          \<and> list_all (starts_after 1 (S ''xAug may'')) pre
          \<and> list_all (starts_not_before 1 (S ''xAug may'')) post)"
proof -
  have none: "list_all (\<lambda>tok. first_month MONTHS tok None = None) (drop 0 [S ''12'', S ''.''])"
    by (simp add: ev)
  have skip: "first_month MONTHS (S ''12 '') None = None"
    by (simp add: ev)
  have hit: "first_month MONTHS (S ''xAug may'') None = Some ((1, 4), tag ''m8'')"
    by (simp add: ev)
  note a = C5_month_name_matcher [where n = 0 and l = "[S ''12'', S ''.'']" and k = 0
      and tok = "S ''xAug may''" and a = 1 and b = 4 and mid' = "tag ''m8''" and v = "PyInt 1"
      and sp = "(1, 4)" and mid = "tag ''m8''"]
  note b = C5_month_name_matcher [where n = 0 and l = "[S ''12 '', S ''xAug may'', S ''juni'']"
      and k = 1 and sp = "(1, 4)" and mid = "tag ''m8''" and tok = "S ''xAug may''" and a = 1
      and b = 4 and mid' = "tag ''m8''" and v = "PyInt 1"]
  from a none have 1: "month_loop 0 [S ''12'', S ''.''] None = Inr ([S ''12'', S ''.''], None)"
    by blast
  from a hit have 2: "\<exists>pre ws post. MONTHS = pre @ (ws, tag ''m8'') # post
          \<and> search ws (S ''xAug may'') = Some (1, 4)
          \<and> list_all (starts_after 1 (S ''xAug may'')) pre
          \<and> list_all (starts_not_before 1 (S ''xAug may'')) post"
    by blast
  have "month_loop 0 [S ''12 '', S ''xAug may'', S ''juni''] None
       = Inr (spliced [S ''12 '', S ''xAug may'', S ''juni''] 1 (1, 4) (tag ''m8''),
              Some (PyStr (drop 2 (tag ''m8''))))"
    using b skip hit by simp
  then have 3: "month_loop 0 [S ''12 '', S ''xAug may'', S ''juni''] None
       = Inr ([S ''12 '', S ''x'', tag ''m8'', S '' may'', S ''juni''], Some (PyStr (S ''8'')))"
    by (simp add: spliced_def tag_def S_def)
  from none 1 skip hit 3 2 show ?thesis
    by (intro conjI)
qed

end
